theory Spec2Isabelle
  imports Complex_Main
begin

section \<open>Constants of the simulation\<close>

text \<open>
  Python floats are idealised as real numbers: every arithmetic operation of the source is
  the exact operation on \<open>real\<close>, so rounding and overflow are not part of the model.
  The integer constants of the source are embedded in the reals, and \<open>DT = 1 / 60\<close> is
  Python 3 true division.
\<close>

definition WIDTH :: real where
  "WIDTH = 1200"

definition HEIGHT :: real where
  "HEIGHT = 800"

definition G :: real where
  "G = 400"

definition DT :: real where
  "DT = 1 / 60"

definition MAX_VELOCITY :: real where
  "MAX_VELOCITY = 25"

section \<open>The Planet class\<close>

record planet =
  x :: real
  y :: real
  vx :: real
  vy :: real
  mass :: real
  radius :: real
  color :: "nat \<times> nat \<times> nat"

definition Planet_init :: "real \<Rightarrow> real \<Rightarrow> real \<Rightarrow> real \<Rightarrow> nat \<times> nat \<times> nat \<Rightarrow> planet" where
  "Planet_init px py m r c =
     \<lparr>x = px, y = py, vx = 0, vy = 0, mass = m, radius = r, color = c\<rparr>"

section \<open>Errors of the Python runtime\<close>

text \<open>
  Float division by zero raises \<open>ZeroDivisionError\<close> and \<open>math.sqrt\<close> of a negative
  number raises \<open>ValueError\<close>. Both are values of the model: a function that can raise
  returns \<open>py_error + 'a\<close>, with \<open>Inl\<close> for the exception.
\<close>

datatype py_error = ZeroDivisionError | ValueError

definition bind_err :: "py_error + 'a \<Rightarrow> ('a \<Rightarrow> py_error + 'b) \<Rightarrow> py_error + 'b" where
  "bind_err m f = (case m of Inl e \<Rightarrow> Inl e | Inr v \<Rightarrow> f v)"

definition truediv :: "real \<Rightarrow> real \<Rightarrow> py_error + real" where
  "truediv a b = (if b = 0 then Inl ZeroDivisionError else Inr (a / b))"

definition math_sqrt :: "real \<Rightarrow> py_error + real" where
  "math_sqrt a = (if a < 0 then Inl ValueError else Inr (sqrt a))"

section \<open>Python floats\<close>

text \<open>
  A Python float is an IEEE 754 binary64 number, and every arithmetic operation on floats
  returns the exact result rounded to the nearest such number, ties to the even
  significand. \<open>double z\<close> is that rounding of the real number \<open>z\<close>: the significand has 53
  bits and the exponent of the last place is at least \<open>- 1074\<close> (subnormal numbers). Results
  beyond the largest float, which Python turns into \<open>inf\<close>, are not modelled; \<open>x ** 2\<close> is
  taken as the rounded square.
\<close>

definition ulp_exp :: "real \<Rightarrow> int" where
  "ulp_exp z = max (\<lfloor>log 2 \<bar>z\<bar>\<rfloor> - 52) (- 1074)"

definition round_half_even :: "real \<Rightarrow> int" where
  "round_half_even q =
     (let f = \<lfloor>q\<rfloor>; r = q - of_int f
      in if r < 1 / 2 then f else if r > 1 / 2 then f + 1 else if even f then f else f + 1)"

definition double :: "real \<Rightarrow> real" where
  "double z =
     (if z = 0 then 0
      else of_int (round_half_even (z / 2 powi ulp_exp z)) * 2 powi ulp_exp z)"

text \<open>
  The two constants of the rounding error: a result in the normal range is off by at most
  \<open>rel_err\<close> times its magnitude, one in the subnormal range by at most \<open>abs_err\<close>.
\<close>

definition rel_err :: real where
  "rel_err = 2 powi (- 53)"

definition abs_err :: real where
  "abs_err = 2 powi (- 1075)"

definition truediv_double :: "real \<Rightarrow> real \<Rightarrow> py_error + real" where
  "truediv_double a b = (if b = 0 then Inl ZeroDivisionError else Inr (double (a / b)))"

definition math_sqrt_double :: "real \<Rightarrow> py_error + real" where
  "math_sqrt_double a = (if a < 0 then Inl ValueError else Inr (double (sqrt a)))"

definition DT_double :: real where
  "DT_double = double (1 / 60)"

section \<open>Physics functions\<close>

text \<open>
  \<open>apply_gravity(p1, p2)\<close> mutates both planets; the model returns the pair of updated
  planets. The statements are kept in the order of the source, so an exception raised by a
  later statement is the result of the whole call.
\<close>

definition apply_gravity :: "planet \<Rightarrow> planet \<Rightarrow> py_error + planet \<times> planet" where
  "apply_gravity p1 p2 =
     (let dx = x p2 - x p1;
          dy = y p2 - y p1;
          dist_sq = dx * dx + dy * dy
      in if dist_sq = 0 then Inr (p1, p2)
         else bind_err (math_sqrt dist_sq) (\<lambda>dist.
           if dist > radius p1 + radius p2 + 5 then
             bind_err (truediv (G * mass p1 * mass p2) dist_sq) (\<lambda>force.
             bind_err (truediv (force * dx) dist) (\<lambda>fx.
             bind_err (truediv (force * dy) dist) (\<lambda>fy.
             bind_err (truediv fx (mass p1)) (\<lambda>ax1.
             bind_err (truediv fy (mass p1)) (\<lambda>ay1.
             bind_err (truediv fx (mass p2)) (\<lambda>ax2.
             bind_err (truediv fy (mass p2)) (\<lambda>ay2.
               Inr (p1\<lparr>vx := vx p1 + ax1 * DT, vy := vy p1 + ay1 * DT\<rparr>,
                    p2\<lparr>vx := vx p2 - ax2 * DT, vy := vy p2 - ay2 * DT\<rparr>))))))))
           else Inr (p1, p2)))"

definition clamp_velocity :: "planet \<Rightarrow> py_error + planet" where
  "clamp_velocity p =
     bind_err (math_sqrt ((vx p)\<^sup>2 + (vy p)\<^sup>2)) (\<lambda>v.
       if v > MAX_VELOCITY then
         bind_err (truediv MAX_VELOCITY v) (\<lambda>scale.
           Inr (p\<lparr>vx := vx p * scale, vy := vy p * scale\<rparr>))
       else Inr p)"

text \<open>
  \<open>update_position\<close> has no division and no square root. Its four border tests are
  consecutive \<open>if\<close> statements, not an \<open>elif\<close> chain: each one reads the planet as the
  previous ones left it.
\<close>

definition update_position :: "planet \<Rightarrow> planet" where
  "update_position p0 =
     (let p = p0\<lparr>x := x p0 + vx p0 * DT * 60\<rparr>;
          p = p\<lparr>y := y p + vy p * DT * 60\<rparr>;
          p = (if x p - radius p < 0
               then p\<lparr>x := radius p, vx := vx p * (- 0.8)\<rparr> else p);
          p = (if x p + radius p > WIDTH
               then p\<lparr>x := WIDTH - radius p, vx := vx p * (- 0.8)\<rparr> else p);
          p = (if y p - radius p < 0
               then p\<lparr>y := radius p, vy := vy p * (- 0.8)\<rparr> else p);
          p = (if y p + radius p > HEIGHT
               then p\<lparr>y := HEIGHT - radius p, vy := vy p * (- 0.8)\<rparr> else p)
      in p)"

definition handle_collision :: "planet \<Rightarrow> planet \<Rightarrow> py_error + planet \<times> planet" where
  "handle_collision p1 p2 =
     (let dx = x p2 - x p1;
          dy = y p2 - y p1
      in bind_err (math_sqrt (dx * dx + dy * dy)) (\<lambda>dist.
           let min_dist = radius p1 + radius p2
           in if dist < min_dist \<and> dist > 0 then
                let overlap = 0.5 * (min_dist - dist)
                in bind_err (truediv dx dist) (\<lambda>nx.
                   bind_err (truediv dy dist) (\<lambda>ny.
                     Inr (p1\<lparr>x := x p1 - nx * overlap, y := y p1 - ny * overlap\<rparr>,
                          p2\<lparr>x := x p2 + nx * overlap, y := y p2 + ny * overlap\<rparr>)))
              else Inr (p1, p2)))"

text \<open>The body of the update pass: \<open>clamp_velocity(p)\<close>, then \<open>update_position(p)\<close>.\<close>

definition motion_integrator :: "planet \<Rightarrow> py_error + planet" where
  "motion_integrator p = bind_err (clamp_velocity p) (\<lambda>q. Inr (update_position q))"


section \<open>Physics functions on floats\<close>

text \<open>
  The same four functions with the rounding of every float operation written out, in the
  order in which Python evaluates the expressions (\<open>a * b / c\<close> is \<open>(a * b) / c\<close>, and
  \<open>p.vx += e\<close> rounds \<open>e\<close> and then the sum). The definitions above are these with the
  rounding left out. The literals \<open>0.8\<close> and \<open>1 / 60\<close> are floats themselves; \<open>0.5\<close>, \<open>5\<close>,
  \<open>60\<close> and the integer constants are exact.
\<close>

definition apply_gravity_double :: "planet \<Rightarrow> planet \<Rightarrow> py_error + planet \<times> planet" where
  "apply_gravity_double p1 p2 =
     (let dx = double (x p2 - x p1);
          dy = double (y p2 - y p1);
          dist_sq = double (double (dx * dx) + double (dy * dy))
      in if dist_sq = 0 then Inr (p1, p2)
         else bind_err (math_sqrt_double dist_sq) (\<lambda>dist.
           if dist > double (double (radius p1 + radius p2) + 5) then
             bind_err (truediv_double (double (double (G * mass p1) * mass p2)) dist_sq) (\<lambda>force.
             bind_err (truediv_double (double (force * dx)) dist) (\<lambda>fx.
             bind_err (truediv_double (double (force * dy)) dist) (\<lambda>fy.
             bind_err (truediv_double fx (mass p1)) (\<lambda>ax1.
             bind_err (truediv_double fy (mass p1)) (\<lambda>ay1.
             bind_err (truediv_double fx (mass p2)) (\<lambda>ax2.
             bind_err (truediv_double fy (mass p2)) (\<lambda>ay2.
               Inr (p1\<lparr>vx := double (vx p1 + double (ax1 * DT_double)),
                       vy := double (vy p1 + double (ay1 * DT_double))\<rparr>,
                    p2\<lparr>vx := double (vx p2 - double (ax2 * DT_double)),
                       vy := double (vy p2 - double (ay2 * DT_double))\<rparr>))))))))
           else Inr (p1, p2)))"

definition clamp_velocity_double :: "planet \<Rightarrow> py_error + planet" where
  "clamp_velocity_double p =
     bind_err (math_sqrt_double (double (double ((vx p)\<^sup>2) + double ((vy p)\<^sup>2)))) (\<lambda>v.
       if v > MAX_VELOCITY then
         bind_err (truediv_double MAX_VELOCITY v) (\<lambda>scale.
           Inr (p\<lparr>vx := double (vx p * scale), vy := double (vy p * scale)\<rparr>))
       else Inr p)"

definition update_position_double :: "planet \<Rightarrow> planet" where
  "update_position_double p0 =
     (let p = p0\<lparr>x := double (x p0 + double (double (vx p0 * DT_double) * 60))\<rparr>;
          p = p\<lparr>y := double (y p + double (double (vy p * DT_double) * 60))\<rparr>;
          p = (if double (x p - radius p) < 0
               then p\<lparr>x := radius p, vx := double (vx p * (- double 0.8))\<rparr> else p);
          p = (if double (x p + radius p) > WIDTH
               then p\<lparr>x := double (WIDTH - radius p), vx := double (vx p * (- double 0.8))\<rparr>
               else p);
          p = (if double (y p - radius p) < 0
               then p\<lparr>y := radius p, vy := double (vy p * (- double 0.8))\<rparr> else p);
          p = (if double (y p + radius p) > HEIGHT
               then p\<lparr>y := double (HEIGHT - radius p), vy := double (vy p * (- double 0.8))\<rparr>
               else p)
      in p)"


definition motion_integrator_double :: "planet \<Rightarrow> py_error + planet" where
  "motion_integrator_double p =
     bind_err (clamp_velocity_double p) (\<lambda>q. Inr (update_position_double q))"

section \<open>The main loop\<close>

text \<open>
  Spawning on \<open>MOUSEBUTTONDOWN\<close>. The two \<open>collidepoint\<close> tests, the outcome of
  \<open>float(self.text)\<close> in \<open>get_value\<close> (\<open>None\<close> when it raises \<open>ValueError\<close>) and the
  random colour come from the libraries and are inputs of the model.
\<close>

definition get_value :: "real option \<Rightarrow> real \<Rightarrow> real" where
  "get_value parsed dflt = (case parsed of Some v \<Rightarrow> v | None \<Rightarrow> dflt)"

definition spawn ::
  "bool \<Rightarrow> bool \<Rightarrow> int \<times> int \<Rightarrow> real option \<Rightarrow> real option \<Rightarrow> nat \<times> nat \<times> nat \<Rightarrow>
   planet list \<Rightarrow> planet list" where
  "spawn in_mass_box in_radius_box pos mass_text radius_text c planets =
     (if \<not> (in_mass_box \<or> in_radius_box) then
        (let m = get_value mass_text 50;
             r = get_value radius_text 10
         in planets @ [Planet_init (of_int (fst pos)) (of_int (snd pos)) m r c])
      else planets)"

text \<open>
  The gravity pass and the collision pass are the same double loop over the index pairs
  \<open>i < j\<close> in ascending order, with a different function called on \<open>planets[i]\<close> and
  \<open>planets[j]\<close>. The planets are objects mutated in place; every list position holds its
  own object, so the call writes positions \<open>i\<close> and \<open>j\<close> of the list.
\<close>

fun pair_inner ::
  "(planet \<Rightarrow> planet \<Rightarrow> py_error + planet \<times> planet) \<Rightarrow> nat \<Rightarrow> nat list \<Rightarrow> planet list \<Rightarrow>
   py_error + planet list" where
  "pair_inner f i [] ps = Inr ps"
| "pair_inner f i (j # js) ps =
     bind_err (f (ps ! i) (ps ! j)) (\<lambda>(p1, p2). pair_inner f i js (ps[i := p1, j := p2]))"

fun pair_outer ::
  "(planet \<Rightarrow> planet \<Rightarrow> py_error + planet \<times> planet) \<Rightarrow> nat list \<Rightarrow> nat \<Rightarrow> planet list \<Rightarrow>
   py_error + planet list" where
  "pair_outer f [] n ps = Inr ps"
| "pair_outer f (i # rest) n ps =
     bind_err (pair_inner f i [i + 1..<n] ps) (pair_outer f rest n)"

definition gravity_pass :: "nat \<Rightarrow> planet list \<Rightarrow> py_error + planet list" where
  "gravity_pass n ps = pair_outer apply_gravity [0..<n - 1] n ps"

fun update_pass :: "planet list \<Rightarrow> py_error + planet list" where
  "update_pass [] = Inr []"
| "update_pass (p # ps) =
     bind_err (motion_integrator p) (\<lambda>q. bind_err (update_pass ps) (\<lambda>qs. Inr (q # qs)))"

definition collision_pass :: "nat \<Rightarrow> planet list \<Rightarrow> py_error + planet list" where
  "collision_pass n ps = pair_outer handle_collision [0..<n - 1] n ps"

definition physics :: "planet list \<Rightarrow> py_error + planet list" where
  "physics ps =
     (let n = length ps
      in bind_err (gravity_pass n ps) (\<lambda>ps1.
         bind_err (update_pass ps1) (\<lambda>ps2.
         collision_pass n ps2)))"

section \<open>Quantities the properties are stated with\<close>

text \<open>
  The distance of the two centres, as \<open>apply_gravity\<close> and \<open>handle_collision\<close> compute it
  (\<open>dist\<close>), and the magnitude of the velocity, as \<open>clamp_velocity\<close> computes it (\<open>v\<close>).
\<close>

definition center_distance :: "planet \<Rightarrow> planet \<Rightarrow> real" where
  "center_distance p1 p2 =
     sqrt ((x p2 - x p1) * (x p2 - x p1) + (y p2 - y p1) * (y p2 - y p1))"

text \<open>
  The same distance as the float code computes it, rounding included.
\<close>

definition center_distance_double :: "planet \<Rightarrow> planet \<Rightarrow> real" where
  "center_distance_double p1 p2 =
     (let dx = double (x p2 - x p1);
          dy = double (y p2 - y p1)
      in double (sqrt (double (double (dx * dx) + double (dy * dy)))))"

definition speed :: "planet \<Rightarrow> real" where
  "speed p = sqrt ((vx p)\<^sup>2 + (vy p)\<^sup>2)"

section \<open>Example bodies\<close>

text \<open>
  Concrete bodies on which the properties below are evaluated. All of them can be spawned
  by a click (mass and radius typed into the two boxes); the moving ones carry a velocity
  that earlier frames gave them.
\<close>

definition white :: "nat \<times> nat \<times> nat" where
  "white = (255, 255, 255)"

definition scenario_left :: planet where
  "scenario_left = Planet_init 100 400 100 10 white"

definition scenario_right :: planet where
  "scenario_right = Planet_init 200 400 100 10 white"

definition contact_right :: planet where
  "contact_right = Planet_init 125 400 100 10 white"

definition overlap_right :: planet where
  "overlap_right = Planet_init 106 408 100 10 white"

definition fast_center :: planet where
  "fast_center = (Planet_init 600 400 50 10 white)\<lparr>vx := 30, vy := 40\<rparr>"

definition fast_left_wall :: planet where
  "fast_left_wall = (Planet_init 5 400 50 10 white)\<lparr>vx := - 50\<rparr>"

definition slow_left_wall :: planet where
  "slow_left_wall = (Planet_init 5 400 50 10 white)\<lparr>vx := - 10\<rparr>"

definition huge_body :: planet where
  "huge_body = Planet_init 100 100 50 700 white"

definition huge_moving :: planet where
  "huge_moving = (Planet_init 100 100 50 700 white)\<lparr>vx := - 10\<rparr>"

definition pull_heavy :: planet where
  "pull_heavy = Planet_init 100 100 50 10 white"

definition pull_light :: planet where
  "pull_light = Planet_init 200 200 10 10 white"

definition corner_left :: planet where
  "corner_left = Planet_init 10 10 50 10 white"

definition corner_right :: planet where
  "corner_right = Planet_init 11 11 50 10 white"

section \<open>Basic facts\<close>

lemma bind_err_Inr [simp]: "bind_err (Inr v) f = f v"
  by (simp add: bind_err_def)

lemma bind_err_Inl [simp]: "bind_err (Inl e) f = Inl e"
  by (simp add: bind_err_def)

lemma truediv_nonzero: "b \<noteq> 0 \<Longrightarrow> truediv a b = Inr (a / b)"
  by (simp add: truediv_def)

lemma math_sqrt_nonneg: "0 \<le> a \<Longrightarrow> math_sqrt a = Inr (sqrt a)"
  by (simp add: math_sqrt_def)

lemma math_sqrt_squares: "math_sqrt (a * a + b * b) = Inr (sqrt (a * a + b * b))"
  by (simp add: math_sqrt_nonneg)

lemma math_sqrt_powers: "math_sqrt (a\<^sup>2 + b\<^sup>2) = Inr (sqrt (a\<^sup>2 + b\<^sup>2))"
  by (simp add: math_sqrt_nonneg)

lemma apply_gravity_skip:
  assumes "center_distance p1 p2 \<le> radius p1 + radius p2 + 5 \<or> center_distance p1 p2 = 0"
  shows "apply_gravity p1 p2 = Inr (p1, p2)"
  using assms
  by (auto simp add: apply_gravity_def center_distance_def Let_def math_sqrt_squares)

lemma apply_gravity_far:
  assumes far: "center_distance p1 p2 > radius p1 + radius p2 + 5"
    and nz: "center_distance p1 p2 \<noteq> 0"
    and m1: "mass p1 \<noteq> 0" and m2: "mass p2 \<noteq> 0"
  shows "apply_gravity p1 p2 =
     Inr (p1\<lparr>vx := vx p1 + G * mass p1 * mass p2 / (center_distance p1 p2)\<^sup>2 * (x p2 - x p1) / center_distance p1 p2 / mass p1 * DT,
              vy := vy p1 + G * mass p1 * mass p2 / (center_distance p1 p2)\<^sup>2 * (y p2 - y p1) / center_distance p1 p2 / mass p1 * DT\<rparr>,
          p2\<lparr>vx := vx p2 - G * mass p1 * mass p2 / (center_distance p1 p2)\<^sup>2 * (x p2 - x p1) / center_distance p1 p2 / mass p2 * DT,
              vy := vy p2 - G * mass p1 * mass p2 / (center_distance p1 p2)\<^sup>2 * (y p2 - y p1) / center_distance p1 p2 / mass p2 * DT\<rparr>)"
proof -
  let ?s = "(x p2 - x p1) * (x p2 - x p1) + (y p2 - y p1) * (y p2 - y p1)"
  have s0: "0 \<le> ?s" by simp
  have d: "center_distance p1 p2 = sqrt ?s" by (simp add: center_distance_def)
  from nz d have snz: "?s \<noteq> 0" by auto
  have sq: "(center_distance p1 p2)\<^sup>2 = ?s" using s0 by (simp add: d)
  show ?thesis
    unfolding apply_gravity_def Let_def
    using snz far nz m1 m2
    by (simp add: math_sqrt_squares truediv_nonzero sq flip: d)
qed

lemma handle_collision_apart:
  assumes "\<not> (0 < center_distance p1 p2 \<and> center_distance p1 p2 < radius p1 + radius p2)"
  shows "handle_collision p1 p2 = Inr (p1, p2)"
  using assms
  by (auto simp add: handle_collision_def center_distance_def Let_def math_sqrt_squares)

lemma handle_collision_overlap:
  assumes pos: "0 < center_distance p1 p2"
    and ov: "center_distance p1 p2 < radius p1 + radius p2"
  shows "handle_collision p1 p2 =
     Inr (p1\<lparr>x := x p1 - (x p2 - x p1) / center_distance p1 p2
                  * (0.5 * (radius p1 + radius p2 - center_distance p1 p2)),
              y := y p1 - (y p2 - y p1) / center_distance p1 p2
                  * (0.5 * (radius p1 + radius p2 - center_distance p1 p2))\<rparr>,
          p2\<lparr>x := x p2 + (x p2 - x p1) / center_distance p1 p2
                  * (0.5 * (radius p1 + radius p2 - center_distance p1 p2)),
              y := y p2 + (y p2 - y p1) / center_distance p1 p2
                  * (0.5 * (radius p1 + radius p2 - center_distance p1 p2))\<rparr>)"
proof -
  have d: "center_distance p1 p2 =
      sqrt ((x p2 - x p1) * (x p2 - x p1) + (y p2 - y p1) * (y p2 - y p1))"
    by (simp add: center_distance_def)
  from pos have nz: "center_distance p1 p2 \<noteq> 0" by simp
  show ?thesis
    unfolding handle_collision_def Let_def
    using pos ov nz
    by (simp add: math_sqrt_squares truediv_nonzero flip: d)
qed

lemmas example_defs = scenario_left_def scenario_right_def contact_right_def overlap_right_def
  fast_center_def fast_left_wall_def slow_left_wall_def huge_body_def huge_moving_def
  corner_left_def corner_right_def pull_heavy_def pull_light_def Planet_init_def white_def

lemma sqrt_10000: "sqrt 10000 = 100"
  using real_sqrt_abs2 [of 100] by simp

section \<open>Force Accumulator\<close>


lemma sqrt_100: "sqrt 100 = 10"
  using real_sqrt_abs2 [of 10] by simp



section \<open>Spawning\<close>

text \<open>
  Claim C9 (bodies start at rest). For every position, mass, radius and colour the
  constructor returns a planet with \<open>vx = 0\<close> and \<open>vy = 0\<close>, and a click outside the two
  input boxes appends exactly one such planet to the collection.
\<close>

theorem spawned_body_at_rest:
  "vx (Planet_init px py m r c) = 0 \<and> vy (Planet_init px py m r c) = 0
   \<and> (\<exists>p. spawn False False pos mass_text radius_text c ps = ps @ [p]
          \<and> vx p = 0 \<and> vy p = 0)"
  by (simp add: Planet_init_def spawn_def Let_def)

section \<open>Motion Integrator\<close>

lemma clamp_velocity_eq:
  "clamp_velocity p =
     Inr (if MAX_VELOCITY < speed p
          then p\<lparr>vx := vx p * (MAX_VELOCITY / speed p), vy := vy p * (MAX_VELOCITY / speed p)\<rparr>
          else p)"
  by (simp add: clamp_velocity_def speed_def math_sqrt_powers truediv_def MAX_VELOCITY_def)



lemma update_position_mass: "mass (update_position p) = mass p"
  by (simp add: update_position_def Let_def)






text \<open>The integrator on the example bodies.\<close>

lemma sqrt_2500: "sqrt 2500 = 50"
  using real_sqrt_abs2 [of 50] by simp

lemma motion_integrator_eq:
  "motion_integrator p =
     Inr (update_position
       (if MAX_VELOCITY < speed p
        then p\<lparr>vx := vx p * (MAX_VELOCITY / speed p), vy := vy p * (MAX_VELOCITY / speed p)\<rparr>
        else p))"
  by (simp add: motion_integrator_def clamp_velocity_eq)

lemma speed_fast_center: "speed fast_center = 50"
  by (simp add: speed_def example_defs sqrt_2500)

lemma speed_fast_left_wall: "speed fast_left_wall = 50"
  by (simp add: speed_def example_defs)

lemma speed_slow_left_wall: "speed slow_left_wall = 10"
  by (simp add: speed_def example_defs)



lemma integrator_fast_center:
  "motion_integrator fast_center = Inr (fast_center\<lparr>x := 615, y := 420, vx := 15, vy := 20\<rparr>)"
  unfolding motion_integrator_eq speed_fast_center
  by (simp add: example_defs update_position_def MAX_VELOCITY_def WIDTH_def HEIGHT_def DT_def)

lemma integrator_fast_left_wall:
  "motion_integrator fast_left_wall = Inr (fast_left_wall\<lparr>x := 10, vx := 20\<rparr>)"
  unfolding motion_integrator_eq speed_fast_left_wall
  by (simp add: example_defs update_position_def MAX_VELOCITY_def WIDTH_def HEIGHT_def DT_def)

lemma integrator_slow_left_wall:
  "motion_integrator slow_left_wall = Inr (slow_left_wall\<lparr>x := 10, vx := 8\<rparr>)"
  unfolding motion_integrator_eq speed_slow_left_wall
  by (simp add: example_defs update_position_def MAX_VELOCITY_def WIDTH_def HEIGHT_def DT_def)



text \<open>
  A body moving left at speed 50, five units from the left wall: the pass clamps its
  velocity to \<open>(- 25, 0)\<close> and the wall then turns it into \<open>(20, 0)\<close>. Clamping occurred,
  and the direction after the pass is the opposite of the direction before it.
\<close>

theorem direction_changes_at_wall:
  "MAX_VELOCITY < speed fast_left_wall
   \<and> motion_integrator fast_left_wall = Inr (fast_left_wall\<lparr>x := 10, vx := 20\<rparr>)
   \<and> vx (fast_left_wall\<lparr>x := 10, vx := 20\<rparr>) / speed (fast_left_wall\<lparr>x := 10, vx := 20\<rparr>)
       \<noteq> vx fast_left_wall / speed fast_left_wall"
  by (simp add: speed_fast_left_wall integrator_fast_left_wall MAX_VELOCITY_def)
     (simp add: speed_def example_defs)







section \<open>No fatal error path\<close>

text \<open>
  Each operation returns normally on bodies of positive mass and leaves the masses as they
  are, so the property carries through the three passes of a frame.
\<close>

lemma apply_gravity_total:
  assumes m1: "0 < mass p1" and m2: "0 < mass p2"
  shows "\<exists>q1 q2. apply_gravity p1 p2 = Inr (q1, q2) \<and> mass q1 = mass p1 \<and> mass q2 = mass p2"
proof (cases "center_distance p1 p2 > radius p1 + radius p2 + 5 \<and> center_distance p1 p2 \<noteq> 0")
  case True
  from m1 m2 have nz: "mass p1 \<noteq> 0" "mass p2 \<noteq> 0" by simp_all
  from True have far: "center_distance p1 p2 > radius p1 + radius p2 + 5"
    and dnz: "center_distance p1 p2 \<noteq> 0" by simp_all
  show ?thesis
    unfolding apply_gravity_far [OF far dnz nz] by simp
next
  case False
  then have "apply_gravity p1 p2 = Inr (p1, p2)"
    by (intro apply_gravity_skip) auto
  then show ?thesis by simp
qed

lemma handle_collision_total:
  "\<exists>q1 q2. handle_collision p1 p2 = Inr (q1, q2) \<and> mass q1 = mass p1 \<and> mass q2 = mass p2"
proof (cases "0 < center_distance p1 p2 \<and> center_distance p1 p2 < radius p1 + radius p2")
  case True
  then have pos: "0 < center_distance p1 p2"
    and ov: "center_distance p1 p2 < radius p1 + radius p2" by simp_all
  show ?thesis
    unfolding handle_collision_overlap [OF pos ov] by simp
next
  case False
  then have "handle_collision p1 p2 = Inr (p1, p2)"
    by (rule handle_collision_apart)
  then show ?thesis by simp
qed

lemma motion_integrator_total:
  "\<exists>q. motion_integrator p = Inr q \<and> mass q = mass p"
  by (simp add: motion_integrator_eq update_position_mass)

lemma gravity_zero_mass_raises:
  "apply_gravity (scenario_left\<lparr>mass := 0\<rparr>) scenario_right = Inl ZeroDivisionError"
  by (simp add: apply_gravity_def example_defs math_sqrt_def truediv_def sqrt_10000)

lemma map_update_same:
  assumes "i < length ps" and "j < length ps"
  shows "(map g ps)[i := g (ps ! i), j := g (ps ! j)] = map g ps"
  using assms by (simp add: list_eq_iff_nth_eq nth_list_update)

lemma pair_inner_total:
  assumes f_ok: "\<And>p1 p2. 0 < mass p1 \<Longrightarrow> 0 < mass p2 \<Longrightarrow>
      \<exists>q1 q2. f p1 p2 = Inr (q1, q2) \<and> mass q1 = mass p1 \<and> mass q2 = mass p2"
    and i: "i < length ps"
    and js: "\<forall>j \<in> set js. j < length ps"
    and pos: "\<forall>p \<in> set ps. 0 < mass p"
  shows "\<exists>qs. pair_inner f i js ps = Inr qs \<and> map mass qs = map mass ps"
  using i js pos
proof (induction js arbitrary: ps)
  case Nil
  then show ?case by simp
next
  case (Cons j js)
  from Cons.prems have j: "j < length ps" by simp
  from Cons.prems i j have "0 < mass (ps ! i)" "0 < mass (ps ! j)"
    by simp_all
  then obtain q1 q2 where f: "f (ps ! i) (ps ! j) = Inr (q1, q2)"
    and m: "mass q1 = mass (ps ! i)" "mass q2 = mass (ps ! j)"
    using f_ok by blast
  let ?ps = "ps[i := q1, j := q2]"
  have same: "map mass ?ps = map mass ps"
    using Cons.prems(1) j m by (simp add: map_update map_update_same)
  have len: "length ?ps = length ps" by simp
  have pos': "\<forall>p \<in> set ?ps. 0 < mass p"
  proof -
    have "\<forall>m \<in> set (map mass ?ps). 0 < m"
      unfolding same using Cons.prems(3) by simp
    then show ?thesis by simp
  qed
  from Cons.prems have "i < length ?ps" "\<forall>k \<in> set js. k < length ?ps"
    by simp_all
  from Cons.IH [OF this pos']
  obtain qs where "pair_inner f i js ?ps = Inr qs" "map mass qs = map mass ?ps"
    by blast
  with f same show ?case by simp
qed

lemma pair_outer_total:
  assumes f_ok: "\<And>p1 p2. 0 < mass p1 \<Longrightarrow> 0 < mass p2 \<Longrightarrow>
      \<exists>q1 q2. f p1 p2 = Inr (q1, q2) \<and> mass q1 = mass p1 \<and> mass q2 = mass p2"
    and idx: "\<forall>i \<in> set idxs. i < n"
    and n: "n = length ps"
    and pos: "\<forall>p \<in> set ps. 0 < mass p"
  shows "\<exists>qs. pair_outer f idxs n ps = Inr qs \<and> map mass qs = map mass ps"
  using idx n pos
proof (induction idxs arbitrary: ps)
  case Nil
  then show ?case by simp
next
  case (Cons i rest)
  from Cons.prems have i: "i < length ps" by simp
  from Cons.prems have js: "\<forall>j \<in> set [i + 1..<n]. j < length ps" by simp
  from pair_inner_total [of f, OF f_ok i js Cons.prems(3)]
  obtain ps1 where in1: "pair_inner f i [i + 1..<n] ps = Inr ps1"
    and same: "map mass ps1 = map mass ps"
    by blast
  from same have len: "length ps1 = length ps"
    by (rule map_eq_imp_length_eq)
  have pos': "\<forall>p \<in> set ps1. 0 < mass p"
  proof -
    have "\<forall>m \<in> set (map mass ps1). 0 < m"
      unfolding same using Cons.prems(3) by simp
    then show ?thesis by simp
  qed
  from Cons.prems have "\<forall>k \<in> set rest. k < n" "n = length ps1"
    by (simp_all add: len)
  from Cons.IH [OF this pos']
  obtain qs where "pair_outer f rest n ps1 = Inr qs" "map mass qs = map mass ps1"
    by blast
  with in1 same show ?case by simp
qed

lemma update_pass_total:
  "\<exists>qs. update_pass ps = Inr qs \<and> map mass qs = map mass ps"
proof (induction ps)
  case Nil
  then show ?case by simp
next
  case (Cons p ps)
  obtain q where "motion_integrator p = Inr q" "mass q = mass p"
    using motion_integrator_total by blast
  moreover from Cons.IH obtain qs where "update_pass ps = Inr qs" "map mass qs = map mass ps"
    by blast
  ultimately show ?case by simp
qed

lemma masses_positive:
  assumes "map mass qs = map mass ps" and "\<forall>p \<in> set ps. 0 < mass p"
  shows "\<forall>p \<in> set qs. 0 < mass p"
proof -
  have "\<forall>m \<in> set (map mass qs). 0 < m"
    unfolding assms(1) using assms(2) by simp
  then show ?thesis by simp
qed

lemma gravity_pass_total:
  assumes "\<forall>p \<in> set ps. 0 < mass p" and "n = length ps"
  shows "\<exists>qs. gravity_pass n ps = Inr qs \<and> map mass qs = map mass ps"
  unfolding gravity_pass_def
  by (rule pair_outer_total [OF apply_gravity_total _ assms(2) assms(1)]) auto

lemma collision_pass_total:
  assumes "\<forall>p \<in> set ps. 0 < mass p" and "n = length ps"
  shows "\<exists>qs. collision_pass n ps = Inr qs \<and> map mass qs = map mass ps"
  unfolding collision_pass_def
  by (rule pair_outer_total [OF handle_collision_total _ assms(2) assms(1)]) auto

lemma physics_total:
  assumes pos: "\<forall>p \<in> set ps. 0 < mass p"
  shows "\<exists>qs. physics ps = Inr qs \<and> map mass qs = map mass ps"
proof -
  obtain ps1 where g: "gravity_pass (length ps) ps = Inr ps1"
    and m1: "map mass ps1 = map mass ps"
    using gravity_pass_total [OF pos refl] by blast
  obtain ps2 where u: "update_pass ps1 = Inr ps2" and m2: "map mass ps2 = map mass ps1"
    using update_pass_total by blast
  have pos2: "\<forall>p \<in> set ps2. 0 < mass p"
    using masses_positive [OF m2 masses_positive [OF m1 pos]] .
  have len: "length ps = length ps2"
    using map_eq_imp_length_eq [OF m1] map_eq_imp_length_eq [OF m2] by simp
  obtain ps3 where c: "collision_pass (length ps) ps2 = Inr ps3"
    and m3: "map mass ps3 = map mass ps2"
    using collision_pass_total [OF pos2 len] by blast
  show ?thesis
    by (simp add: physics_def Let_def g u c m1 m2 m3)
qed

text \<open>
  Claim C6 (no division by zero). On bodies of positive mass none of the operations of the
  physics core raises: \<open>apply_gravity\<close>, \<open>clamp_velocity\<close>, the integrator step
  (\<open>clamp_velocity\<close> then \<open>update_position\<close>, which itself has no division) and
  \<open>handle_collision\<close> all return normally, that is, every divisor is nonzero on the branch
  that divides. Positive radius is not needed.
\<close>

theorem no_division_by_zero:
  assumes m1: "0 < mass p1" and m2: "0 < mass p2"
  shows "(\<exists>r. apply_gravity p1 p2 = Inr r) \<and> (\<exists>c. clamp_velocity p1 = Inr c)
         \<and> (\<exists>q. motion_integrator p1 = Inr q) \<and> (\<exists>r. handle_collision p1 p2 = Inr r)"
proof -
  have "\<exists>r. apply_gravity p1 p2 = Inr r"
    using apply_gravity_total [OF m1 m2] by blast
  moreover have "\<exists>c. clamp_velocity p1 = Inr c"
    by (simp add: clamp_velocity_eq)
  moreover have "\<exists>q. motion_integrator p1 = Inr q"
    by (simp add: motion_integrator_eq)
  moreover have "\<exists>r. handle_collision p1 p2 = Inr r"
    using handle_collision_total [of p1 p2] by blast
  ultimately show ?thesis by simp
qed

theorem no_division_by_zero_witness:
  "0 < mass scenario_left \<and> 0 < mass scenario_right
   \<and> (\<exists>r. apply_gravity scenario_left scenario_right = Inr r)
   \<and> (\<exists>c. clamp_velocity scenario_left = Inr c)
   \<and> (\<exists>q. motion_integrator scenario_left = Inr q)
   \<and> (\<exists>r. handle_collision scenario_left scenario_right = Inr r)"
proof -
  have m1: "0 < mass scenario_left" and m2: "0 < mass scenario_right"
    by (simp_all add: example_defs)
  from no_division_by_zero [OF m1 m2] m1 m2
  show ?thesis by simp
qed

section \<open>Rounding to a float\<close>

lemma round_half_even_error: "\<bar>of_int (round_half_even q) - q\<bar> \<le> 1 / 2"
  unfolding round_half_even_def Let_def
  by (auto simp add: abs_if) linarith+

lemma ulp_exp_le:
  assumes "z \<noteq> 0" and "- 1074 \<le> \<lfloor>log 2 \<bar>z\<bar>\<rfloor> - 52"
  shows "2 powi ulp_exp z \<le> \<bar>z\<bar> * 2 powi (- 52)"
proof -
  have e: "ulp_exp z = \<lfloor>log 2 \<bar>z\<bar>\<rfloor> - 52"
    using assms(2) by (simp add: ulp_exp_def)
  have "2 powr of_int \<lfloor>log 2 \<bar>z\<bar>\<rfloor> \<le> 2 powr log 2 \<bar>z\<bar>"
    by (intro powr_mono) simp_all
  also have "\<dots> = \<bar>z\<bar>" using assms(1) by simp
  finally have "2 powi \<lfloor>log 2 \<bar>z\<bar>\<rfloor> \<le> \<bar>z\<bar>"
    by (simp add: powr_real_of_int')
  then have "(2::real) powi \<lfloor>log 2 \<bar>z\<bar>\<rfloor> * 2 powi (- 52) \<le> \<bar>z\<bar> * 2 powi (- 52)"
    by (intro mult_right_mono) simp_all
  then show ?thesis
    unfolding e by (simp add: power_int_diff power_int_minus field_simps)
qed

lemma double_error_ulp: "\<bar>double z - z\<bar> \<le> 2 powi ulp_exp z / 2"
proof (cases "z = 0")
  case True
  then show ?thesis by (simp add: double_def)
next
  case False
  let ?p = "(2::real) powi ulp_exp z"
  have p: "0 < ?p" by simp
  have "double z - z = (of_int (round_half_even (z / ?p)) - z / ?p) * ?p"
    using False p by (simp add: double_def field_simps)
  then have "\<bar>double z - z\<bar> = \<bar>of_int (round_half_even (z / ?p)) - z / ?p\<bar> * ?p"
    using p by (simp add: abs_mult)
  also have "\<dots> \<le> 1 / 2 * ?p"
    using round_half_even_error [of "z / ?p"] p by (intro mult_right_mono) simp_all
  finally show ?thesis by simp
qed

lemma double_error: "\<bar>double z - z\<bar> \<le> 2 powi (- 53) * \<bar>z\<bar> + 2 powi (- 1075)"
proof -
  have half: "(2::real) powi k / 2 = 2 powi (k - 1)" for k :: int
    by (simp add: power_int_diff)
  show ?thesis
  proof (cases "z \<noteq> 0 \<and> - 1074 \<le> \<lfloor>log 2 \<bar>z\<bar>\<rfloor> - 52")
    case True
    then have "2 powi ulp_exp z / 2 \<le> \<bar>z\<bar> * 2 powi (- 52) / 2"
      using ulp_exp_le [of z] by simp
    also have "\<dots> = 2 powi (- 53) * \<bar>z\<bar>"
      using half [of "- 52"] by simp
    finally have "\<bar>double z - z\<bar> \<le> 2 powi (- 53) * \<bar>z\<bar>"
      using double_error_ulp [of z] by linarith
    moreover have "0 \<le> (2::real) powi (- 1075)" by simp
    ultimately show ?thesis by linarith
  next
    case False
    show ?thesis
    proof (cases "z = 0")
      case True
      then show ?thesis by (simp add: double_def)
    next
      case nz: False
      with False have "ulp_exp z = - 1074" by (simp add: ulp_exp_def)
      then have "2 powi ulp_exp z / 2 = (2::real) powi (- 1075)"
        using half [of "- 1074"] by simp
      then have "\<bar>double z - z\<bar> \<le> 2 powi (- 1075)"
        using double_error_ulp [of z] by simp
      moreover have "0 \<le> 2 powi (- 53) * \<bar>z\<bar>" by simp
      ultimately show ?thesis by linarith
    qed
  qed
qed


lemma ulp_exp_eqI:
  assumes "2 powi k \<le> \<bar>z\<bar>" and "\<bar>z\<bar> < 2 powi (k + 1)"
  shows "ulp_exp z = max (k - 52) (- 1074)"
proof -
  have pos: "0 < \<bar>z\<bar>"
    using assms(1) by (smt (verit) zero_less_power_int)
  have "(2::real) powi k = 2 powr of_int k" "(2::real) powi (k + 1) = 2 powr of_int (k + 1)"
    using powr_real_of_int' [of "2::real" k] powr_real_of_int' [of "2::real" "k + 1"]
    by simp_all
  with assms have "2 powr of_int k \<le> \<bar>z\<bar>" "\<bar>z\<bar> < 2 powr of_int (k + 1)"
    by simp_all
  then have "of_int k \<le> log 2 \<bar>z\<bar>" "log 2 \<bar>z\<bar> < of_int (k + 1)"
    using pos by (simp_all add: le_log_iff log_less_iff)
  then have "\<lfloor>log 2 \<bar>z\<bar>\<rfloor> = k"
    by (intro floor_unique) simp_all
  then show ?thesis by (simp add: ulp_exp_def)
qed

lemma double_eqI:
  assumes "2 powi k \<le> \<bar>z\<bar>" and "\<bar>z\<bar> < 2 powi (k + 1)"
    and "e = max (k - 52) (- 1074)"
    and "round_half_even (z / 2 powi e) = m"
  shows "double z = of_int m * 2 powi e"
proof -
  have "z \<noteq> 0"
    using assms(1) by (smt (verit) zero_less_power_int abs_zero)
  then show ?thesis
    using ulp_exp_eqI [OF assms(1,2)] assms(3,4) by (simp add: double_def)
qed

lemma round_half_even_eqI:
  assumes "\<bar>q - of_int m\<bar> < 1 / 2"
  shows "round_half_even q = m"
proof -
  have "\<lfloor>q\<rfloor> = m \<or> \<lfloor>q\<rfloor> = m - 1"
    using assms by linarith
  then show ?thesis
  proof
    assume f: "\<lfloor>q\<rfloor> = m"
    with assms have "q - of_int m < 1 / 2" by linarith
    with f show ?thesis by (simp add: round_half_even_def Let_def)
  next
    assume f: "\<lfloor>q\<rfloor> = m - 1"
    with assms have "q - of_int (m - 1) > 1 / 2" by linarith
    with f show ?thesis by (simp add: round_half_even_def Let_def)
  qed
qed

lemma double_error_result:
  "\<bar>double z - z\<bar> \<le> 2 powi (- 53) * \<bar>double z\<bar> + 2 powi (- 1075)"
proof -
  have half: "(2::real) powi k / 2 = 2 powi (k - 1)" for k :: int
    by (simp add: power_int_diff)
  show ?thesis
  proof (cases "z \<noteq> 0 \<and> - 1074 \<le> \<lfloor>log 2 \<bar>z\<bar>\<rfloor> - 52")
    case True
    then have nz: "z \<noteq> 0" and e: "ulp_exp z = \<lfloor>log 2 \<bar>z\<bar>\<rfloor> - 52"
      by (simp_all add: ulp_exp_def)
    let ?p = "(2::real) powi ulp_exp z"
    let ?m = "round_half_even (z / ?p)"
    have p: "0 < ?p" by simp
    have "?p * 2 powi 52 \<le> \<bar>z\<bar>"
      using ulp_exp_le [OF nz] True
      by (simp add: power_int_minus field_simps)
    then have q: "2 powi 52 \<le> \<bar>z / ?p\<bar>"
      using p by (simp add: field_simps)
    have "\<bar>of_int ?m - z / ?p\<bar> \<le> 1 / 2"
      by (rule round_half_even_error)
    with q have "2 powi 52 - 1 / 2 \<le> \<bar>real_of_int ?m\<bar>"
      by linarith
    then have "real_of_int (2 ^ 52) - 1 / 2 \<le> real_of_int \<bar>?m\<bar>"
      by simp
    then have "2 ^ 52 \<le> \<bar>?m\<bar>"
      by linarith
    then have m: "(2::real) powi 52 \<le> \<bar>of_int ?m\<bar>"
      by (metis numeral_power_eq_of_int_cancel_iff of_int_abs of_int_le_iff
          power_int_numeral)
    have d: "\<bar>double z\<bar> = \<bar>of_int ?m\<bar> * ?p"
      using nz by (simp add: double_def abs_mult)
    have "2 powi 52 * ?p \<le> \<bar>double z\<bar>"
      unfolding d using m p by (intro mult_right_mono) simp_all
    then have "?p / 2 \<le> 2 powi (- 53) * \<bar>double z\<bar>"
      by (simp add: power_int_minus field_simps)
    then have "\<bar>double z - z\<bar> \<le> 2 powi (- 53) * \<bar>double z\<bar>"
      using double_error_ulp [of z] by linarith
    moreover have "0 \<le> (2::real) powi (- 1075)" by simp
    ultimately show ?thesis by linarith
  next
    case False
    show ?thesis
    proof (cases "z = 0")
      case True
      then show ?thesis by (simp add: double_def)
    next
      case nz: False
      with False have "ulp_exp z = - 1074" by (simp add: ulp_exp_def)
      then have "2 powi ulp_exp z / 2 = (2::real) powi (- 1075)"
        using half [of "- 1074"] by simp
      then have "\<bar>double z - z\<bar> \<le> 2 powi (- 1075)"
        using double_error_ulp [of z] by simp
      moreover have "0 \<le> 2 powi (- 53) * \<bar>double z\<bar>" by simp
      ultimately show ?thesis by linarith
    qed
  qed
qed


lemma double_value:
  assumes "2 powi k \<le> \<bar>z\<bar>" and "\<bar>z\<bar> < 2 powi (k + 1)"
    and "\<bar>z / 2 powi (max (k - 52) (- 1074)) - of_int m\<bar> < 1 / 2"
    and "r = of_int m * 2 powi (max (k - 52) (- 1074))"
  shows "double z = r"
  using double_eqI [OF assms(1,2) refl round_half_even_eqI [OF assms(3)]] assms(4)
  by simp

lemma double_sqrt_value:
  assumes lo: "(2 powi k)\<^sup>2 \<le> s" and hi: "s < (2 powi (k + 1))\<^sup>2"
    and m: "1 \<le> m"
    and below: "((of_int m - 1 / 2) * 2 powi (max (k - 52) (- 1074)))\<^sup>2 < s"
    and above: "s < ((of_int m + 1 / 2) * 2 powi (max (k - 52) (- 1074)))\<^sup>2"
    and r: "r = of_int m * 2 powi (max (k - 52) (- 1074))"
  shows "double (sqrt s) = r"
proof -
  let ?p = "(2::real) powi (max (k - 52) (- 1074))"
  have p: "0 < ?p" by simp
  have s: "0 \<le> s" using lo by (smt (verit) zero_le_power2)
  have "2 powi k \<le> sqrt s"
    using lo by (intro real_le_rsqrt) simp
  then have a: "2 powi k \<le> \<bar>sqrt s\<bar>" by simp
  have "sqrt s < 2 powi (k + 1)"
    using hi by (intro real_less_lsqrt) simp_all
  then have b: "\<bar>sqrt s\<bar> < 2 powi (k + 1)"
    using s by simp
  have m': "0 \<le> (of_int m - 1 / 2) * ?p"
    using m by simp
  have "(of_int m - 1 / 2) * ?p < sqrt s"
    using below by (intro real_less_rsqrt) simp
  moreover have "sqrt s < (of_int m + 1 / 2) * ?p"
    using above m by (intro real_less_lsqrt) simp_all
  ultimately have "of_int m - 1 / 2 < sqrt s / ?p" "sqrt s / ?p < of_int m + 1 / 2"
    using p by (simp_all add: field_simps)
  then have c: "\<bar>sqrt s / ?p - of_int m\<bar> < 1 / 2"
    by linarith
  show ?thesis
    using a b c r by (rule double_value)
qed

lemma round_half_even_nonneg: "0 \<le> q \<Longrightarrow> 0 \<le> round_half_even q"
  by (simp add: round_half_even_def Let_def)

lemma round_half_even_nonpos: "q \<le> 0 \<Longrightarrow> round_half_even q \<le> 0"
proof -
  assume q: "q \<le> 0"
  then have f: "\<lfloor>q\<rfloor> \<le> 0" by linarith
  show ?thesis
  proof (cases "\<lfloor>q\<rfloor> = 0")
    case True
    then have "q = 0" using q by linarith
    then show ?thesis by (simp add: round_half_even_def)
  next
    case False
    with f have "\<lfloor>q\<rfloor> + 1 \<le> 0" by linarith
    with f show ?thesis by (simp add: round_half_even_def Let_def)
  qed
qed

lemma double_nonneg: "0 \<le> z \<Longrightarrow> 0 \<le> double z"
  by (simp add: double_def round_half_even_nonneg)

lemma double_nonpos: "z \<le> 0 \<Longrightarrow> double z \<le> 0"
proof -
  assume z: "z \<le> 0"
  then have "z / 2 powi ulp_exp z \<le> 0"
    by (simp add: divide_le_0_iff)
  then have "real_of_int (round_half_even (z / 2 powi ulp_exp z)) \<le> 0"
    using round_half_even_nonpos by simp
  then show ?thesis
    by (simp add: double_def mult_le_0_iff)
qed




lemma rel_err_bounds: "0 < rel_err" "rel_err \<le> 1 / 2 ^ 53"
  by (simp_all add: rel_err_def power_int_minus field_simps)

lemma abs_err_bounds: "0 < abs_err" "abs_err \<le> 1 / 2 ^ 1000"
  by (simp_all add: abs_err_def power_int_minus field_simps)

lemma double_close: "\<bar>double z - z\<bar> \<le> rel_err * \<bar>z\<bar> + abs_err"
  unfolding rel_err_def abs_err_def by (rule double_error)

lemma double_close_result: "\<bar>double z - z\<bar> \<le> rel_err * \<bar>double z\<bar> + abs_err"
  unfolding rel_err_def abs_err_def by (rule double_error_result)

section \<open>Overlap Resolver\<close>


















section \<open>Force Accumulator on floats\<close>

lemma pull_1: "double (1 / 60) = 4803839602528529 / 288230376151711744"
  by (rule double_value [where k = "-6" and m = "4803839602528529"])
     (simp_all add: power_int_minus)

lemma pull_2: "double (100) = 100"
  by (rule double_value [where k = "6" and m = "7036874417766400"])
     (simp_all add: power_int_minus)

lemma pull_3: "double (10000) = 10000"
  by (rule double_value [where k = "13" and m = "5497558138880000"])
     (simp_all add: power_int_minus)

lemma pull_4: "double (20000) = 20000"
  by (rule double_value [where k = "14" and m = "5497558138880000"])
     (simp_all add: power_int_minus)

lemma pull_5: "double (sqrt (20000)) = 621977702395095 / 4398046511104"
  by (rule double_sqrt_value [where k = "7" and m = "4975821619160760"])
     (simp_all add: power_int_minus power2_eq_square)

lemma pull_6: "double (20) = 20"
  by (rule double_value [where k = "4" and m = "5629499534213120"])
     (simp_all add: power_int_minus)

lemma pull_7: "double (25) = 25"
  by (rule double_value [where k = "4" and m = "7036874417766400"])
     (simp_all add: power_int_minus)

lemma pull_8: "double (200000) = 200000"
  by (rule double_value [where k = "17" and m = "6871947673600000"])
     (simp_all add: power_int_minus)

lemma pull_9: "double (10) = 10"
  by (rule double_value [where k = "3" and m = "5629499534213120"])
     (simp_all add: power_int_minus)

lemma pull_10: "double (1000) = 1000"
  by (rule double_value [where k = "9" and m = "8796093022208000"])
     (simp_all add: power_int_minus)

lemma pull_11: "double (879609302220800 / 124395540479019) = 7961314590657215 / 1125899906842624"
  by (rule double_value [where k = "2" and m = "7961314590657215"])
     (simp_all add: power_int_minus)

lemma pull_12: "double (1592262918131443 / 11258999068426240) = 2547620669010309 / 18014398509481984"
  by (rule double_value [where k = "-3" and m = "5095241338020618"])
     (simp_all add: power_int_minus)

lemma pull_13: "double (12238361062011947925028367605461 / 5192296858534827628530496329220096) = 5434924093888659 / 2305843009213693952"
  by (rule double_value [where k = "-9" and m = "5434924093888659"])
     (simp_all add: power_int_minus)

lemma pull_14: "double (5434924093888659 / 2305843009213693952) = 5434924093888659 / 2305843009213693952"
  by (rule double_value [where k = "-9" and m = "5434924093888659"])
     (simp_all add: power_int_minus)

lemma pull_15: "double (1592262918131443 / 2251799813685248) = 1592262918131443 / 2251799813685248"
  by (rule double_value [where k = "-1" and m = "6369051672525772"])
     (simp_all add: power_int_minus)

lemma pull_16: "double (7648975663757466852662779437347 / 649037107316853453566312041152512) = 6793655117360823 / 576460752303423488"
  by (rule double_value [where k = "-7" and m = "6793655117360823"])
     (simp_all add: power_int_minus)

lemma pull_17: "double (- (6793655117360823 / 576460752303423488)) = - (6793655117360823 / 576460752303423488)"
  by (rule double_value [where k = "-7" and m = "-6793655117360823"])
     (simp_all add: power_int_minus)

lemma double_tiny_or_zero:
  assumes "double z \<noteq> 0"
  shows "2 powi (- 1074) \<le> \<bar>double z\<bar>"
proof -
  from assms have z: "z \<noteq> 0" by (auto simp add: double_def)
  let ?m = "round_half_even (z / 2 powi ulp_exp z)"
  from assms z have "?m \<noteq> 0" by (auto simp add: double_def)
  then have m: "1 \<le> \<bar>real_of_int ?m\<bar>"
    by (metis int_one_le_iff_zero_less of_int_1_le_iff of_int_abs
        order_le_less zero_less_abs_iff)
  have "- 1074 \<le> ulp_exp z" by (simp add: ulp_exp_def)
  then have e: "(2::real) powi (- 1074) \<le> 2 powi ulp_exp z"
    by (intro power_int_increasing) simp_all
  have "\<bar>double z\<bar> = \<bar>real_of_int ?m\<bar> * 2 powi ulp_exp z"
    using z by (simp add: double_def abs_mult)
  also have "\<dots> \<ge> 1 * 2 powi (- 1074)"
    using m e by (intro mult_mono) simp_all
  finally show ?thesis by simp
qed

lemma double_sqrt_positive:
  assumes "2 powi (- 1074) \<le> s"
  shows "0 < double (sqrt s)"
proof -
  have "(2 powi (- 537))\<^sup>2 = (2::real) powi (- 1074)"
    by (simp add: power_int_minus power2_eq_square field_simps)
  with assms have "(2 powi (- 537))\<^sup>2 \<le> s" by simp
  then have lo: "2 powi (- 537) \<le> sqrt s"
    by (intro real_le_rsqrt)
  have "\<bar>double (sqrt s) - sqrt s\<bar> \<le> rel_err * \<bar>sqrt s\<bar> + abs_err"
    by (rule double_close)
  moreover have "rel_err * \<bar>sqrt s\<bar> \<le> 1 / 2 * \<bar>sqrt s\<bar>"
    using rel_err_bounds by (intro mult_right_mono) simp_all
  moreover have "abs_err < 1 / 2 * 2 powi (- 537)"
    by (simp add: abs_err_def power_int_minus field_simps)
  ultimately show ?thesis using lo by linarith
qed


lemma impulse_side_bound:
  fixes u h :: real
  assumes m: "0 < m" and D: "0 \<le> D" "D \<le> 1"
    and u: "0 \<le> u" "u \<le> 1 / 4" and h: "0 \<le> h"
    and e1: "\<bar>a - f / m\<bar> \<le> u * \<bar>a\<bar> + h"
    and e2: "\<bar>t - a * D\<bar> \<le> u * \<bar>t\<bar> + h"
    and e3: "\<bar>d - s * t\<bar> \<le> u * \<bar>w\<bar> + h"
    and s: "\<bar>s\<bar> = 1"
    and A: "\<bar>d\<bar> \<le> A" "\<bar>w\<bar> \<le> A"
  shows "\<bar>m * d - s * (f * D)\<bar> \<le> m * (4 * u * A + 4 * h)"
proof -
  have A0: "0 \<le> A" using A by linarith
  have uA: "0 \<le> u * A" using u A0 by simp
  have uw: "u * \<bar>w\<bar> \<le> u * A"
    using A u by (intro mult_left_mono) simp_all
  have st: "\<bar>s * t\<bar> = \<bar>t\<bar>" using s by (simp add: abs_mult)
  have t: "\<bar>t\<bar> \<le> A + u * A + h"
    using e3 uw A st by linarith
  have uh: "u * h \<le> h / 4"
    using u h mult_right_mono [of u "1 / 4" h] by simp
  have ut: "u * \<bar>t\<bar> \<le> u * A + u * A / 4 + h / 4"
  proof -
    have "u * \<bar>t\<bar> \<le> u * (A + u * A + h)"
      using t u by (intro mult_left_mono) simp_all
    also have "\<dots> = u * A + u * (u * A) + u * h"
      by (simp add: algebra_simps)
    also have "u * (u * A) \<le> 1 / 4 * (u * A)"
      using u uA by (intro mult_right_mono) simp_all
    finally show ?thesis using uh by linarith
  qed
  have aD: "\<bar>a\<bar> * D \<le> \<bar>t\<bar> + u * \<bar>t\<bar> + h"
  proof -
    have "\<bar>a\<bar> * D = \<bar>a * D\<bar>" using D by (simp add: abs_mult)
    then show ?thesis using e2 by linarith
  qed
  have uaD: "u * (\<bar>a\<bar> * D) \<le> u * \<bar>t\<bar> + u * \<bar>t\<bar> / 4 + h / 4"
  proof -
    have "u * (\<bar>a\<bar> * D) \<le> u * (\<bar>t\<bar> + u * \<bar>t\<bar> + h)"
      using aD u by (intro mult_left_mono) simp_all
    also have "\<dots> = u * \<bar>t\<bar> + u * (u * \<bar>t\<bar>) + u * h"
      by (simp add: algebra_simps)
    also have "u * (u * \<bar>t\<bar>) \<le> 1 / 4 * (u * \<bar>t\<bar>)"
      using u by (intro mult_right_mono) simp_all
    finally show ?thesis using uh by linarith
  qed
  define g where "g = f / m * D"
  define p where "p = a * D"
  have fD: "\<bar>p - g\<bar> \<le> u * (\<bar>a\<bar> * D) + h"
  proof -
    have "p - g = (a - f / m) * D"
      by (simp only: p_def g_def left_diff_distrib)
    then have "\<bar>p - g\<bar> = \<bar>a - f / m\<bar> * D"
      using D by (simp only: abs_mult abs_of_nonneg)
    also have "\<dots> \<le> (u * \<bar>a\<bar> + h) * D"
      using e1 D by (intro mult_right_mono) simp_all
    also have "\<dots> = u * (\<bar>a\<bar> * D) + h * D"
      by (simp add: algebra_simps)
    also have "h * D \<le> h * 1"
      using h D by (intro mult_left_mono) simp_all
    finally show ?thesis by simp
  qed
  have e2': "\<bar>t - p\<bar> \<le> u * \<bar>t\<bar> + h"
    using e2 by (simp add: p_def)
  have tf: "\<bar>t - g\<bar> \<le> 3 * (u * A) + 3 * h"
    using e2' fD uaD ut uw uA h by linarith
  define r where "r = s * (t - g)"
  have r: "\<bar>r\<bar> = \<bar>t - g\<bar>"
    using s by (simp add: r_def abs_mult)
  have "d - s * g = (d - s * t) + r"
    by (simp add: r_def algebra_simps)
  then have "\<bar>d - s * g\<bar> \<le> \<bar>d - s * t\<bar> + \<bar>r\<bar>"
    by linarith
  then have "\<bar>d - s * g\<bar> \<le> 4 * (u * A) + 4 * h"
    using e3 tf r h uw by linarith
  then have "m * \<bar>d - s * g\<bar> \<le> m * (4 * (u * A) + 4 * h)"
    using m by (intro mult_left_mono) simp_all
  moreover have "m * \<bar>d - s * g\<bar> = \<bar>m * d - s * (f * D)\<bar>"
  proof -
    have "m * (d - s * g) = m * d - s * (f * D)"
      using m by (simp add: g_def algebra_simps)
    then show ?thesis
      using m by (metis abs_mult abs_of_pos)
  qed
  ultimately show ?thesis by (simp add: algebra_simps)
qed


lemma DT_double_range: "0 \<le> DT_double" "DT_double \<le> 1"
  by (simp_all add: DT_double_def pull_1)

lemma rounded_impulse:
  assumes m: "0 < m"
    and w: "w = double (v + s * double (double (f / m) * DT_double))"
    and s: "\<bar>s\<bar> = 1"
  shows "\<bar>m * (w - v) - s * (f * DT_double)\<bar>
           \<le> m * (4 * rel_err * (\<bar>v\<bar> + \<bar>w\<bar>) + 4 * abs_err)"
proof -
  define a where "a = double (f / m)"
  define t where "t = double (a * DT_double)"
  have u: "0 \<le> rel_err" "rel_err \<le> 1 / 4"
    using rel_err_bounds by simp_all
  have h: "0 \<le> abs_err"
    using abs_err_bounds by simp
  have e1: "\<bar>a - f / m\<bar> \<le> rel_err * \<bar>a\<bar> + abs_err"
    unfolding a_def by (rule double_close_result)
  have e2: "\<bar>t - a * DT_double\<bar> \<le> rel_err * \<bar>t\<bar> + abs_err"
    unfolding t_def by (rule double_close_result)
  have "\<bar>w - (v + s * t)\<bar> \<le> rel_err * \<bar>w\<bar> + abs_err"
    unfolding w t_def a_def by (rule double_close_result)
  then have e3: "\<bar>(w - v) - s * t\<bar> \<le> rel_err * \<bar>w\<bar> + abs_err"
    by (simp add: algebra_simps)
  have A: "\<bar>w - v\<bar> \<le> \<bar>v\<bar> + \<bar>w\<bar>" "\<bar>w\<bar> \<le> \<bar>v\<bar> + \<bar>w\<bar>"
    by simp_all
  show ?thesis
    using impulse_side_bound [OF m DT_double_range u h e1 e2 e3 s A] by simp
qed

text \<open>
  A body of mass 50 at \<open>(100, 100)\<close> and one of mass 10 at \<open>(200, 200)\<close>, both at rest. The
  two quotients \<open>fx / mass\<close> and the two products with \<open>DT\<close> are rounded separately, and
  50 times the first velocity change differs from minus 10 times the second in the last
  place.
\<close>

lemma gravity_pull_value:
  "apply_gravity_double pull_heavy pull_light =
     Inr (pull_heavy\<lparr>vx := 5434924093888659 / 2305843009213693952,
                       vy := 5434924093888659 / 2305843009213693952\<rparr>,
          pull_light\<lparr>vx := - (6793655117360823 / 576460752303423488),
                       vy := - (6793655117360823 / 576460752303423488)\<rparr>)"
  by (simp add: apply_gravity_double_def example_defs G_def DT_double_def
      math_sqrt_double_def truediv_double_def Let_def
      pull_1 pull_2 pull_3 pull_4 pull_5 pull_6 pull_7 pull_8 pull_9 pull_10 pull_11 pull_12
      pull_13 pull_14 pull_15 pull_16 pull_17)

lemma center_distance_double_pull:
  "center_distance_double pull_heavy pull_light = 621977702395095 / 4398046511104"
  by (simp add: center_distance_double_def example_defs Let_def pull_2 pull_3 pull_4 pull_5)

theorem gravity_impulses_differ_in_floats:
  "center_distance pull_heavy pull_light > radius pull_heavy + radius pull_light + 5
   \<and> apply_gravity_double pull_heavy pull_light =
       Inr (pull_heavy\<lparr>vx := 5434924093888659 / 2305843009213693952,
                         vy := 5434924093888659 / 2305843009213693952\<rparr>,
            pull_light\<lparr>vx := - (6793655117360823 / 576460752303423488),
                         vy := - (6793655117360823 / 576460752303423488)\<rparr>)
   \<and> mass pull_heavy * (5434924093888659 / 2305843009213693952 - vx pull_heavy)
       \<noteq> - (mass pull_light * (- (6793655117360823 / 576460752303423488) - vx pull_light))"
proof -
  have "25 < sqrt 20000"
    by (rule real_less_rsqrt) simp
  then have "center_distance pull_heavy pull_light > radius pull_heavy + radius pull_light + 5"
    by (simp add: center_distance_def example_defs)
  moreover have "mass pull_heavy * (5434924093888659 / 2305843009213693952 - vx pull_heavy)
       \<noteq> - (mass pull_light * (- (6793655117360823 / 576460752303423488) - vx pull_light))"
    by (simp add: example_defs)
  ultimately show ?thesis
    using gravity_pull_value by simp
qed

text \<open>
  Claim C1 (Newton's third law), as amended. For two bodies of positive mass whose
  distance, as the float code computes it, exceeds its contact range
  \<open>radius_i + radius_j + 5\<close>, \<open>apply_gravity\<close> returns normally and the two impulses are
  equal and opposite up to rounding: on each axis the sum of \<open>mass_i\<close> times the velocity
  change of \<open>i\<close> and \<open>mass_j\<close> times that of \<open>j\<close> is at most
  \<open>mass_i \<sqdot> (4 \<sqdot> rel_err \<sqdot> (\<bar>v_i\<bar> + \<bar>v_i'\<bar>) + 4 \<sqdot> abs_err)\<close> plus the same term for \<open>j\<close>, where
  \<open>v\<close> and \<open>v'\<close> are the velocity components before and after the call.
\<close>

theorem gravity_impulses_balance_up_to_rounding:
  assumes far: "center_distance_double p1 p2 > double (double (radius p1 + radius p2) + 5)"
    and m1: "0 < mass p1" and m2: "0 < mass p2"
  shows "\<exists>q1 q2. apply_gravity_double p1 p2 = Inr (q1, q2)
           \<and> \<bar>mass p1 * (vx q1 - vx p1) + mass p2 * (vx q2 - vx p2)\<bar>
               \<le> mass p1 * (4 * rel_err * (\<bar>vx p1\<bar> + \<bar>vx q1\<bar>) + 4 * abs_err)
                 + mass p2 * (4 * rel_err * (\<bar>vx p2\<bar> + \<bar>vx q2\<bar>) + 4 * abs_err)
           \<and> \<bar>mass p1 * (vy q1 - vy p1) + mass p2 * (vy q2 - vy p2)\<bar>
               \<le> mass p1 * (4 * rel_err * (\<bar>vy p1\<bar> + \<bar>vy q1\<bar>) + 4 * abs_err)
                 + mass p2 * (4 * rel_err * (\<bar>vy p2\<bar> + \<bar>vy q2\<bar>) + 4 * abs_err)"
proof -
  define dx where "dx = double (x p2 - x p1)"
  define dy where "dy = double (y p2 - y p1)"
  define dist_sq where "dist_sq = double (double (dx * dx) + double (dy * dy))"
  define dist where "dist = double (sqrt dist_sq)"
  have u: "0 \<le> rel_err" and h: "0 \<le> abs_err"
    using rel_err_bounds abs_err_bounds by simp_all
  have slack: "0 \<le> m * (4 * rel_err * (\<bar>a\<bar> + \<bar>b\<bar>) + 4 * abs_err)" if "0 < m" for m a b :: real
    using that u h by simp
  have cd: "center_distance_double p1 p2 = dist"
    by (simp add: center_distance_double_def Let_def dist_def dist_sq_def dx_def dy_def)
  have sq0: "0 \<le> dist_sq"
    unfolding dist_sq_def by (intro double_nonneg add_nonneg_nonneg) simp_all
  show ?thesis
  proof (cases "dist_sq = 0")
    case True
    then have "apply_gravity_double p1 p2 = Inr (p1, p2)"
      by (simp add: apply_gravity_double_def Let_def dist_sq_def dx_def dy_def)
    moreover
    have "0 \<le> mass p1 * (4 * rel_err * (\<bar>vx p1\<bar> + \<bar>vx p1\<bar>) + 4 * abs_err)
        + mass p2 * (4 * rel_err * (\<bar>vx p2\<bar> + \<bar>vx p2\<bar>) + 4 * abs_err)"
      using slack [OF m1, of "vx p1" "vx p1"] slack [OF m2, of "vx p2" "vx p2"] by linarith
    moreover
    have "0 \<le> mass p1 * (4 * rel_err * (\<bar>vy p1\<bar> + \<bar>vy p1\<bar>) + 4 * abs_err)
        + mass p2 * (4 * rel_err * (\<bar>vy p2\<bar> + \<bar>vy p2\<bar>) + 4 * abs_err)"
      using slack [OF m1, of "vy p1" "vy p1"] slack [OF m2, of "vy p2" "vy p2"] by linarith
    ultimately
    have "apply_gravity_double p1 p2 = Inr (p1, p2)
        \<and> \<bar>mass p1 * (vx p1 - vx p1) + mass p2 * (vx p2 - vx p2)\<bar>
            \<le> mass p1 * (4 * rel_err * (\<bar>vx p1\<bar> + \<bar>vx p1\<bar>) + 4 * abs_err)
              + mass p2 * (4 * rel_err * (\<bar>vx p2\<bar> + \<bar>vx p2\<bar>) + 4 * abs_err)
        \<and> \<bar>mass p1 * (vy p1 - vy p1) + mass p2 * (vy p2 - vy p2)\<bar>
            \<le> mass p1 * (4 * rel_err * (\<bar>vy p1\<bar> + \<bar>vy p1\<bar>) + 4 * abs_err)
              + mass p2 * (4 * rel_err * (\<bar>vy p2\<bar> + \<bar>vy p2\<bar>) + 4 * abs_err)"
      by simp
    then show ?thesis by blast
  next
    case False
    then have "2 powi (- 1074) \<le> \<bar>dist_sq\<bar>"
      unfolding dist_sq_def by (rule double_tiny_or_zero)
    with sq0 have "0 < dist"
      unfolding dist_def by (intro double_sqrt_positive) simp
    then have dnz: "dist \<noteq> 0" by simp
    define force where "force = double (double (double (G * mass p1) * mass p2) / dist_sq)"
    define fx where "fx = double (double (force * dx) / dist)"
    define fy where "fy = double (double (force * dy) / dist)"
    define q1 where "q1 = p1\<lparr>vx := double (vx p1 + double (double (fx / mass p1) * DT_double)),
        vy := double (vy p1 + double (double (fy / mass p1) * DT_double))\<rparr>"
    define q2 where "q2 = p2\<lparr>vx := double (vx p2 - double (double (fx / mass p2) * DT_double)),
        vy := double (vy p2 - double (double (fy / mass p2) * DT_double))\<rparr>"
    from m1 m2 have mnz: "mass p1 \<noteq> 0" "mass p2 \<noteq> 0" by simp_all
    have res: "apply_gravity_double p1 p2 = Inr (q1, q2)"
      using False far dnz mnz sq0
      unfolding apply_gravity_double_def cd
      by (simp add: Let_def math_sqrt_double_def truediv_double_def
          flip: dx_def dy_def dist_sq_def dist_def force_def fx_def fy_def q1_def q2_def)
    have x1: "\<bar>mass p1 * (vx q1 - vx p1) - 1 * (fx * DT_double)\<bar>
        \<le> mass p1 * (4 * rel_err * (\<bar>vx p1\<bar> + \<bar>vx q1\<bar>) + 4 * abs_err)"
      by (rule rounded_impulse [OF m1]) (simp_all add: q1_def)
    have x2: "\<bar>mass p2 * (vx q2 - vx p2) - (- 1) * (fx * DT_double)\<bar>
        \<le> mass p2 * (4 * rel_err * (\<bar>vx p2\<bar> + \<bar>vx q2\<bar>) + 4 * abs_err)"
      by (rule rounded_impulse [OF m2]) (simp_all add: q2_def)
    have y1: "\<bar>mass p1 * (vy q1 - vy p1) - 1 * (fy * DT_double)\<bar>
        \<le> mass p1 * (4 * rel_err * (\<bar>vy p1\<bar> + \<bar>vy q1\<bar>) + 4 * abs_err)"
      by (rule rounded_impulse [OF m1]) (simp_all add: q1_def)
    have y2: "\<bar>mass p2 * (vy q2 - vy p2) - (- 1) * (fy * DT_double)\<bar>
        \<le> mass p2 * (4 * rel_err * (\<bar>vy p2\<bar> + \<bar>vy q2\<bar>) + 4 * abs_err)"
      by (rule rounded_impulse [OF m2]) (simp_all add: q2_def)
    have "\<bar>mass p1 * (vx q1 - vx p1) + mass p2 * (vx q2 - vx p2)\<bar>
        \<le> mass p1 * (4 * rel_err * (\<bar>vx p1\<bar> + \<bar>vx q1\<bar>) + 4 * abs_err)
          + mass p2 * (4 * rel_err * (\<bar>vx p2\<bar> + \<bar>vx q2\<bar>) + 4 * abs_err)"
      using x1 x2 by linarith
    moreover
    have "\<bar>mass p1 * (vy q1 - vy p1) + mass p2 * (vy q2 - vy p2)\<bar>
        \<le> mass p1 * (4 * rel_err * (\<bar>vy p1\<bar> + \<bar>vy q1\<bar>) + 4 * abs_err)
          + mass p2 * (4 * rel_err * (\<bar>vy p2\<bar> + \<bar>vy q2\<bar>) + 4 * abs_err)"
      using y1 y2 by linarith
    ultimately show ?thesis using res by blast
  qed
qed

theorem gravity_impulses_balance_up_to_rounding_witness:
  "center_distance_double pull_heavy pull_light
      > double (double (radius pull_heavy + radius pull_light) + 5)
   \<and> 0 < mass pull_heavy \<and> 0 < mass pull_light
   \<and> (\<exists>q1 q2. apply_gravity_double pull_heavy pull_light = Inr (q1, q2)
         \<and> vx q1 = 5434924093888659 / 2305843009213693952
         \<and> vx q2 = - (6793655117360823 / 576460752303423488)
         \<and> \<bar>mass pull_heavy * (vx q1 - vx pull_heavy)
               + mass pull_light * (vx q2 - vx pull_light)\<bar>
             \<le> mass pull_heavy * (4 * rel_err * (\<bar>vx pull_heavy\<bar> + \<bar>vx q1\<bar>) + 4 * abs_err)
               + mass pull_light * (4 * rel_err * (\<bar>vx pull_light\<bar> + \<bar>vx q2\<bar>) + 4 * abs_err))"
proof -
  have far: "center_distance_double pull_heavy pull_light
      > double (double (radius pull_heavy + radius pull_light) + 5)"
    by (simp add: center_distance_double_pull) (simp add: example_defs pull_6 pull_7)
  have m1: "0 < mass pull_heavy" and m2: "0 < mass pull_light"
    by (simp_all add: example_defs)
  from gravity_impulses_balance_up_to_rounding [OF far m1 m2]
  obtain q1 q2 where res: "apply_gravity_double pull_heavy pull_light = Inr (q1, q2)"
    and bal: "\<bar>mass pull_heavy * (vx q1 - vx pull_heavy)
               + mass pull_light * (vx q2 - vx pull_light)\<bar>
             \<le> mass pull_heavy * (4 * rel_err * (\<bar>vx pull_heavy\<bar> + \<bar>vx q1\<bar>) + 4 * abs_err)
               + mass pull_light * (4 * rel_err * (\<bar>vx pull_light\<bar> + \<bar>vx q2\<bar>) + 4 * abs_err)"
    by blast
  from res have "vx q1 = 5434924093888659 / 2305843009213693952"
    "vx q2 = - (6793655117360823 / 576460752303423488)"
    unfolding gravity_pull_value by auto
  with far m1 m2 res bal show ?thesis by blast
qed

end
